theory Spec2Isabelle
  imports Main "HOL-Library.Word"
begin

section \<open>Strings\<close>

text \<open>
  A JavaScript string is a sequence of UTF-16 code units; \<open>length\<close>, \<open>slice\<close> and
  \<open>trim\<close> all count code units. The empty string is the only falsy string.
\<close>

type_synonym jsstring = "16 word list"

text \<open>
  \<open>String.prototype.trim\<close> removes leading and trailing white space and line
  terminators (ECMAScript \<open>WhiteSpace\<close> and \<open>LineTerminator\<close>): TAB, LF, VT, FF, CR,
  SPACE, NBSP, U+1680, U+2000..U+200A, U+2028, U+2029, U+202F, U+205F, U+3000, U+FEFF.
\<close>

definition isWhiteSpace :: "16 word \<Rightarrow> bool" where
  "isWhiteSpace c =
     (c = 0x0009 \<or> c = 0x000A \<or> c = 0x000B \<or> c = 0x000C \<or> c = 0x000D \<or> c = 0x0020
      \<or> c = 0x00A0 \<or> c = 0x1680 \<or> (0x2000 \<le> c \<and> c \<le> 0x200A) \<or> c = 0x2028
      \<or> c = 0x2029 \<or> c = 0x202F \<or> c = 0x205F \<or> c = 0x3000 \<or> c = 0xFEFF)"

definition trim :: "jsstring \<Rightarrow> jsstring" where
  "trim s = rev (dropWhile isWhiteSpace (rev (dropWhile isWhiteSpace s)))"

section \<open>The conversation state\<close>

text \<open>\<open>interface Message\<close>; the \<open>Date\<close> is its number of milliseconds.\<close>

record message =
  id_msg :: jsstring
  text_msg :: jsstring
  isUser :: bool
  timestamp :: int

text \<open>
  The \<open>useState\<close> cells of \<open>KetonAI\<close> that \<open>handleSendMessage\<close> and the input
  handlers read or write.
\<close>

record ketonai =
  messages :: "message list"
  inputValue :: jsstring
  isTyping :: bool
  showChat :: bool
  logoVisible :: bool

text \<open>A value thrown by \<open>fetch\<close> or by \<open>response.text()\<close>, carrying its message.\<close>

datatype exn = Exn jsstring

text \<open>
  What lies outside the component: the requests that \<open>fetch\<close> has sent and whose
  \<open>handleSendMessage\<close> call is still suspended at its \<open>await\<close> (each remembers the
  \<open>placeholderId\<close> of its closure), the bodies of all requests sent so far, and the
  lines written by \<open>console.error\<close>.
\<close>

record request =
  placeholderId :: jsstring
  posted :: jsstring

record world = ketonai +
  inflight :: "request list"
  fetched :: "jsstring list"
  console :: "exn list"

definition initial :: world where
  "initial = \<lparr>messages = [], inputValue = [], isTyping = False, showChat = False,
     logoVisible = True, inflight = [], fetched = [], console = []\<rparr>"

text \<open>
  The values \<open>handleSendMessage\<close> draws from the platform, in the order of the calls:
  \<open>crypto.randomUUID()\<close> and \<open>new Date()\<close> for the user message, then again for the
  placeholder.
\<close>

record draws =
  uuid1 :: jsstring
  now1 :: int
  uuid2 :: jsstring
  now2 :: int

section \<open>handleSendMessage up to its first await\<close>

definition handleSendMessage :: "draws \<Rightarrow> world \<Rightarrow> world" where
  "handleSendMessage d w =
     (if trim (inputValue w) = [] then w
      else
        let userMessage = \<lparr>id_msg = uuid1 d, text_msg = inputValue w, isUser = True,
                             timestamp = now1 d\<rparr>;
            w1 = w\<lparr>messages := messages w @ [userMessage]\<rparr>;
            w2 = w1\<lparr>inputValue := []\<rparr>;
            w3 = w2\<lparr>showChat := True\<rparr>;
            w4 = w3\<lparr>logoVisible := False\<rparr>;
            w5 = w4\<lparr>isTyping := True\<rparr>;
            pid = uuid2 d;
            w6 = w5\<lparr>messages := messages w5 @
                   [\<lparr>id_msg = pid, text_msg = [], isUser = False, timestamp = now2 d\<rparr>]\<rparr>
        in w6\<lparr>inflight := inflight w6 @ [\<lparr>placeholderId = pid, posted = text_msg userMessage\<rparr>],
               fetched := fetched w6 @ [text_msg userMessage]\<rparr>)"

section \<open>handleSendMessage after the awaits\<close>

text \<open>
  How \<open>fetch\<close> and \<open>response.text()\<close> end. \<open>fetch\<close> rejects on a network error
  only; an HTTP error status still resolves to a response.
\<close>

datatype text_outcome = TextResolves jsstring | TextRejects exn

record response =
  status :: nat
  body :: text_outcome

datatype fetch_outcome = FetchResolves response | FetchRejects exn

definition fallback :: jsstring where
  "fallback = map (\<lambda>c. of_nat (of_char c))
     ''Oops! Something went wrong connecting to the server.''"

text \<open>
  The \<open>try\<close> block: both awaits, then \<open>setMessages\<close> with the full text. A throw
  leaves the block before any state is written.
\<close>

definition try_block :: "jsstring \<Rightarrow> fetch_outcome \<Rightarrow> world \<Rightarrow> exn + world" where
  "try_block pid out w =
     (case out of
        FetchRejects err \<Rightarrow> Inl err
      | FetchResolves resp \<Rightarrow>
          (case body resp of
             TextRejects err \<Rightarrow> Inl err
           | TextResolves fullText \<Rightarrow>
               Inr (w\<lparr>messages := map (\<lambda>msg. if id_msg msg = pid
                                              then msg\<lparr>text_msg := fullText\<rparr> else msg)
                                      (messages w)\<rparr>)))"

definition catch_block :: "jsstring \<Rightarrow> exn \<Rightarrow> world \<Rightarrow> world" where
  "catch_block pid err w =
     (let w1 = w\<lparr>console := console w @ [err]\<rparr>
      in w1\<lparr>messages := map (\<lambda>msg. if id_msg msg = pid
                                      then msg\<lparr>text_msg := fallback\<rparr> else msg)
                              (messages w1)\<rparr>)"

definition finally_block :: "world \<Rightarrow> world" where
  "finally_block w = w\<lparr>isTyping := False\<rparr>"

text \<open>How the promise returned by the async function settles.\<close>

datatype settlement = Fulfilled | Rejected exn

definition handleSendMessage_resume ::
  "jsstring \<Rightarrow> fetch_outcome \<Rightarrow> world \<Rightarrow> world \<times> settlement" where
  "handleSendMessage_resume pid out w =
     (case try_block pid out w of
        Inr w' \<Rightarrow> (finally_block w', Fulfilled)
      | Inl err \<Rightarrow> (finally_block (catch_block pid err w), Fulfilled))"

section \<open>Events of the page\<close>

definition handleInputFocus :: "world \<Rightarrow> world" where
  "handleInputFocus w =
     (if \<not> showChat w then w\<lparr>showChat := True, logoVisible := False\<rparr> else w)"

text \<open>
  \<open>Change v\<close> is the input's \<open>onChange\<close>, \<open>Focus\<close> its \<open>onFocus\<close>, \<open>Send d\<close> a
  click on the button or the Enter key, \<open>Settle pid out\<close> the moment the request
  of placeholder \<open>pid\<close> ends with \<open>out\<close> and its suspended call runs to its end.
  The call writes no state between its two awaits, so both are one event.
\<close>

datatype event = Change jsstring | Focus | Send draws | Settle jsstring fetch_outcome

definition settle :: "jsstring \<Rightarrow> fetch_outcome \<Rightarrow> world \<Rightarrow> world" where
  "settle pid out w =
     fst (handleSendMessage_resume pid out
            (w\<lparr>inflight := filter (\<lambda>r. placeholderId r \<noteq> pid) (inflight w)\<rparr>))"

fun step :: "event \<Rightarrow> world \<Rightarrow> world" where
  "step (Change v) w = w\<lparr>inputValue := v\<rparr>"
| "step Focus w = handleInputFocus w"
| "step (Send d) w = handleSendMessage d w"
| "step (Settle pid out) w = settle pid out w"

text \<open>
  An event can happen in a world when the identifiers drawn by \<open>crypto.randomUUID()\<close>
  are new, and when the request that ends is one that is in flight.
\<close>

fun possible :: "event \<Rightarrow> world \<Rightarrow> bool" where
  "possible (Send d) w =
     (uuid1 d \<noteq> uuid2 d \<and> uuid1 d \<notin> set (map id_msg (messages w))
      \<and> uuid2 d \<notin> set (map id_msg (messages w)))"
| "possible (Settle pid out) w = (pid \<in> set (map placeholderId (inflight w)))"
| "possible _ w = True"

fun run :: "event list \<Rightarrow> world \<Rightarrow> world" where
  "run [] w = w"
| "run (e # es) w = run es (step e w)"

fun feasible :: "event list \<Rightarrow> world \<Rightarrow> bool" where
  "feasible [] w = True"
| "feasible (e # es) w = (possible e w \<and> feasible es (step e w))"

text \<open>
  Told from the events alone, starting from \<open>b\<close>: a message has been accepted, and no
  request has ended since the last message was accepted. A send is accepted when the
  input field does not trim to nothing.
\<close>

fun awaited :: "event list \<Rightarrow> world \<Rightarrow> bool \<Rightarrow> bool" where
  "awaited [] w b = b"
| "awaited (Send d # es) w b =
     awaited es (step (Send d) w) (if trim (inputValue w) = [] then b else True)"
| "awaited (Settle pid out # es) w b = awaited es (step (Settle pid out) w) False"
| "awaited (e # es) w b = awaited es (step e w) b"

section \<open>TypewriterText\<close>

text \<open>
  The component's \<open>displayed\<close> cell, the \<open>fullText\<close> its effect last ran for, the
  \<open>idx\<close> of the effect's closure, and whether its interval is set.
\<close>

record typewriter =
  displayed :: jsstring
  fullText :: jsstring
  idx :: nat
  interval :: bool

definition mounted :: typewriter where
  "mounted = \<lparr>displayed = [], fullText = [], idx = 0, interval = False\<rparr>"

text \<open>The body of the effect, run for a new \<open>fullText\<close>.\<close>

definition effect :: "jsstring \<Rightarrow> typewriter \<Rightarrow> typewriter" where
  "effect ft s =
     (let s1 = s\<lparr>fullText := ft, idx := 0\<rparr>;
          s2 = s1\<lparr>displayed := []\<rparr>
      in if ft = [] then s2 else s2\<lparr>interval := True\<rparr>)"

text \<open>The clean-up the effect returns: \<open>clearInterval\<close>.\<close>

definition cleanup :: "typewriter \<Rightarrow> typewriter" where
  "cleanup s = s\<lparr>interval := False\<rparr>"

text \<open>A render with the prop \<open>ft\<close>: the effect depends on \<open>[fullText]\<close>.\<close>

definition render :: "jsstring \<Rightarrow> typewriter \<Rightarrow> typewriter" where
  "render ft s = (if ft = fullText s then s else effect ft (cleanup s))"

text \<open>The interval's callback; \<open>slice(0, idx)\<close> is \<open>take idx\<close>.\<close>

definition tick :: "typewriter \<Rightarrow> typewriter" where
  "tick s =
     (let s1 = s\<lparr>idx := idx s + 1\<rparr>;
          s2 = s1\<lparr>displayed := take (idx s1) (fullText s1)\<rparr>
      in if idx s2 \<ge> length (fullText s2) then s2\<lparr>interval := False\<rparr> else s2)"

text \<open>
  The interval fires as long as it is set. \<open>frames\<close> lists the strings that the
  callback passes to \<open>setDisplayed\<close>, \<open>rest\<close> is the state once it no longer fires.
\<close>

function frames :: "typewriter \<Rightarrow> jsstring list" where
  "frames s = (if interval s then displayed (tick s) # frames (tick s) else [])"
  by pat_completeness auto
termination
  by (relation "measure (\<lambda>s. if interval s then Suc (length (fullText s) - idx s) else 0)")
     (auto simp: tick_def Let_def)

function rest :: "typewriter \<Rightarrow> typewriter" where
  "rest s = (if interval s then rest (tick s) else s)"
  by pat_completeness auto
termination
  by (relation "measure (\<lambda>s. if interval s then Suc (length (fullText s) - idx s) else 0)")
     (auto simp: tick_def Let_def)

declare frames.simps [simp del] rest.simps [simp del]

section \<open>What a settled request writes\<close>

text \<open>The text that the resumed call puts into the placeholder, for each outcome.\<close>

definition written :: "fetch_outcome \<Rightarrow> jsstring" where
  "written out =
     (case out of
        FetchRejects err \<Rightarrow> fallback
      | FetchResolves resp \<Rightarrow>
          (case body resp of TextRejects err \<Rightarrow> fallback | TextResolves txt \<Rightarrow> txt))"

text \<open>
  The worlds the page can be in: no two messages share an id, and every request in
  flight has its placeholder in the list, still empty.
\<close>

definition wellformed :: "world \<Rightarrow> bool" where
  "wellformed w =
     (distinct (map id_msg (messages w)) \<and>
      (\<forall>r \<in> set (inflight w). \<exists>m \<in> set (messages w).
          id_msg m = placeholderId r \<and> text_msg m = [] \<and> \<not> isUser m))"

section \<open>Lemmas about one call\<close>

lemma resume_messages:
  "messages (fst (handleSendMessage_resume pid out w)) =
     map (\<lambda>msg. if id_msg msg = pid then msg\<lparr>text_msg := written out\<rparr> else msg) (messages w)"
  by (cases out)
     (simp_all add: handleSendMessage_resume_def try_block_def catch_block_def finally_block_def
        written_def Let_def split: text_outcome.splits)

lemma settle_messages:
  "messages (settle pid out w) =
     map (\<lambda>msg. if id_msg msg = pid then msg\<lparr>text_msg := written out\<rparr> else msg) (messages w)"
  by (simp add: settle_def resume_messages)

lemma settle_fields:
  "isTyping (settle pid out w) = False"
  "inputValue (settle pid out w) = inputValue w"
  "showChat (settle pid out w) = showChat w"
  "logoVisible (settle pid out w) = logoVisible w"
  "fetched (settle pid out w) = fetched w"
  "inflight (settle pid out w) = filter (\<lambda>r. placeholderId r \<noteq> pid) (inflight w)"
  by (cases out; simp add: settle_def handleSendMessage_resume_def try_block_def catch_block_def
        finally_block_def Let_def split: text_outcome.splits)+

lemma map_hit_update:
  assumes "distinct (map id_msg ms)" "i < length ms" "id_msg (ms ! i) = pid"
  shows "map (\<lambda>msg. if id_msg msg = pid then msg\<lparr>text_msg := t\<rparr> else msg) ms
           = ms[i := (ms ! i)\<lparr>text_msg := t\<rparr>]"
proof (rule nth_equalityI)
  show "length (map (\<lambda>msg. if id_msg msg = pid then msg\<lparr>text_msg := t\<rparr> else msg) ms)
          = length (ms[i := (ms ! i)\<lparr>text_msg := t\<rparr>])"
    by simp
next
  fix j
  assume "j < length (map (\<lambda>msg. if id_msg msg = pid then msg\<lparr>text_msg := t\<rparr> else msg) ms)"
  then have j: "j < length ms" by simp
  show "map (\<lambda>msg. if id_msg msg = pid then msg\<lparr>text_msg := t\<rparr> else msg) ms ! j
          = ms[i := (ms ! i)\<lparr>text_msg := t\<rparr>] ! j"
  proof (cases "j = i")
    case True
    with assms show ?thesis by simp
  next
    case False
    have "id_msg (ms ! j) \<noteq> pid"
    proof
      assume "id_msg (ms ! j) = pid"
      with assms j have "j = i"
        using nth_eq_iff_index_eq [of "map id_msg ms" j i] by simp
      with False show False by contradiction
    qed
    with j False show ?thesis by simp
  qed
qed

lemma wellformed_initial: "wellformed initial"
  by (simp add: wellformed_def initial_def)

lemma send_messages:
  "trim (inputValue w) \<noteq> [] \<Longrightarrow>
   messages (handleSendMessage d w) = messages w @
     [\<lparr>id_msg = uuid1 d, text_msg = inputValue w, isUser = True, timestamp = now1 d\<rparr>,
      \<lparr>id_msg = uuid2 d, text_msg = [], isUser = False, timestamp = now2 d\<rparr>]"
  by (simp add: handleSendMessage_def Let_def)

lemma send_inflight:
  "trim (inputValue w) \<noteq> [] \<Longrightarrow>
   inflight (handleSendMessage d w) = inflight w @ [\<lparr>placeholderId = uuid2 d, posted = inputValue w\<rparr>]"
  by (simp add: handleSendMessage_def Let_def)

lemma send_blank: "trim (inputValue w) = [] \<Longrightarrow> handleSendMessage d w = w"
  by (simp add: handleSendMessage_def)

lemma wellformed_send:
  assumes "wellformed w" "possible (Send d) w"
  shows "wellformed (handleSendMessage d w)"
proof (cases "trim (inputValue w) = []")
  case True
  with assms show ?thesis by (simp add: send_blank)
next
  case False
  from assms have "distinct (map id_msg (messages (handleSendMessage d w)))"
    by (simp add: send_messages [OF False] wellformed_def)
  moreover have "\<forall>r \<in> set (inflight (handleSendMessage d w)).
      \<exists>m \<in> set (messages (handleSendMessage d w)).
          id_msg m = placeholderId r \<and> text_msg m = [] \<and> \<not> isUser m"
    using assms(1) by (auto simp: send_messages [OF False] send_inflight [OF False] wellformed_def)
  ultimately show ?thesis by (simp add: wellformed_def)
qed

lemma wellformed_settle:
  assumes "wellformed w"
  shows "wellformed (settle pid out w)"
proof -
  have eq: "map id_msg (messages (settle pid out w)) = map id_msg (messages w)"
    by (simp add: settle_messages o_def if_distrib cong: if_cong)
  have "\<exists>m \<in> set (messages (settle pid out w)).
          id_msg m = placeholderId r \<and> text_msg m = [] \<and> \<not> isUser m"
    if r: "r \<in> set (inflight (settle pid out w))" for r
  proof -
    from r have "r \<in> set (inflight w)" and ne: "placeholderId r \<noteq> pid"
      by (simp_all add: settle_fields)
    with assms obtain m where m: "m \<in> set (messages w)" "id_msg m = placeholderId r"
        "text_msg m = []" "\<not> isUser m"
      by (auto simp: wellformed_def)
    with ne have "m \<in> set (messages (settle pid out w))"
      by (force simp: settle_messages image_iff)
    with m show ?thesis by blast
  qed
  with assms eq show ?thesis by (simp add: wellformed_def)
qed

lemma wellformed_step: "wellformed w \<Longrightarrow> possible e w \<Longrightarrow> wellformed (step e w)"
proof (cases e)
  case (Change v)
  assume "wellformed w" with Change show ?thesis by (simp add: wellformed_def)
next
  case Focus
  assume "wellformed w" with Focus show ?thesis by (simp add: wellformed_def handleInputFocus_def)
next
  case (Send d)
  assume "wellformed w" "possible e w" with Send show ?thesis by (simp add: wellformed_send)
next
  case (Settle pid out)
  assume "wellformed w" with Settle show ?thesis by (simp add: wellformed_settle)
qed

lemma wellformed_run: "wellformed w \<Longrightarrow> feasible es w \<Longrightarrow> wellformed (run es w)"
  by (induction es arbitrary: w) (simp_all add: wellformed_step)

section \<open>Sending\<close>

text \<open>
  C8. When the input field holds only white space (or nothing), a send does nothing at
  all: the world is the same afterwards, so no message is added, no request goes out
  and none is in flight that was not before.
\<close>

theorem blank_input_ignored:
  "trim (inputValue w) = [] \<Longrightarrow>
     handleSendMessage d w = w \<and> step (Send d) w = w
     \<and> messages (handleSendMessage d w) = messages w
     \<and> fetched (handleSendMessage d w) = fetched w
     \<and> inflight (handleSendMessage d w) = inflight w"
  by (simp add: send_blank)

theorem blank_input_ignored_witness:
  "trim (inputValue (initial\<lparr>inputValue := [0x20, 0x09, 0x20]\<rparr>)) = []
   \<and> handleSendMessage \<lparr>uuid1 = [0x31], now1 = 5, uuid2 = [0x32], now2 = 6\<rparr>
        (initial\<lparr>inputValue := [0x20, 0x09, 0x20]\<rparr>) = initial\<lparr>inputValue := [0x20, 0x09, 0x20]\<rparr>
   \<and> messages (handleSendMessage \<lparr>uuid1 = [0x31], now1 = 5, uuid2 = [0x32], now2 = 6\<rparr>
        (initial\<lparr>inputValue := [0x20, 0x09, 0x20]\<rparr>)) = []"
  using blank_input_ignored [of "initial\<lparr>inputValue := [0x20, 0x09, 0x20]\<rparr>"
      "\<lparr>uuid1 = [0x31], now1 = 5, uuid2 = [0x32], now2 = 6\<rparr>"]
  by (simp add: trim_def isWhiteSpace_def initial_def)

text \<open>
  C1. When the input field trims to something, a send appends two messages, in this
  order: the user's, with the input as typed, and the assistant's placeholder, with empty
  text and the second identifier drawn. The typing flag is set, the input field is
  emptied, and one request with the typed text goes out. When the identifiers drawn are
  new, the ids in the list stay pairwise different.
\<close>

theorem send_appends_two:
  assumes "trim (inputValue w) \<noteq> []"
  shows "messages (handleSendMessage d w) = messages w @
           [\<lparr>id_msg = uuid1 d, text_msg = inputValue w, isUser = True, timestamp = now1 d\<rparr>,
            \<lparr>id_msg = uuid2 d, text_msg = [], isUser = False, timestamp = now2 d\<rparr>]
    \<and> isTyping (handleSendMessage d w)
    \<and> inputValue (handleSendMessage d w) = []
    \<and> fetched (handleSendMessage d w) = fetched w @ [inputValue w]
    \<and> inflight (handleSendMessage d w) =
           inflight w @ [\<lparr>placeholderId = uuid2 d, posted = inputValue w\<rparr>]
    \<and> (possible (Send d) w \<and> distinct (map id_msg (messages w)) \<longrightarrow>
           distinct (map id_msg (messages (handleSendMessage d w))))"
  using assms by (simp add: handleSendMessage_def Let_def)

theorem send_appends_two_witness:
  "trim (inputValue (initial\<lparr>inputValue := [0x20, 0x68, 0x69]\<rparr>)) \<noteq> []
   \<and> possible (Send \<lparr>uuid1 = [0x31], now1 = 5, uuid2 = [0x32], now2 = 6\<rparr>)
        (initial\<lparr>inputValue := [0x20, 0x68, 0x69]\<rparr>)
   \<and> distinct (map id_msg (messages (initial\<lparr>inputValue := [0x20, 0x68, 0x69]\<rparr>)))
   \<and> messages (handleSendMessage \<lparr>uuid1 = [0x31], now1 = 5, uuid2 = [0x32], now2 = 6\<rparr>
        (initial\<lparr>inputValue := [0x20, 0x68, 0x69]\<rparr>)) =
       [\<lparr>id_msg = [0x31], text_msg = [0x20, 0x68, 0x69], isUser = True, timestamp = 5\<rparr>,
        \<lparr>id_msg = [0x32], text_msg = [], isUser = False, timestamp = 6\<rparr>]
   \<and> isTyping (handleSendMessage \<lparr>uuid1 = [0x31], now1 = 5, uuid2 = [0x32], now2 = 6\<rparr>
        (initial\<lparr>inputValue := [0x20, 0x68, 0x69]\<rparr>))
   \<and> inputValue (handleSendMessage \<lparr>uuid1 = [0x31], now1 = 5, uuid2 = [0x32], now2 = 6\<rparr>
        (initial\<lparr>inputValue := [0x20, 0x68, 0x69]\<rparr>)) = []
   \<and> distinct (map id_msg (messages
        (handleSendMessage \<lparr>uuid1 = [0x31], now1 = 5, uuid2 = [0x32], now2 = 6\<rparr>
          (initial\<lparr>inputValue := [0x20, 0x68, 0x69]\<rparr>))))"
proof -
  have h: "trim (inputValue (initial\<lparr>inputValue := [0x20, 0x68, 0x69]\<rparr>)) \<noteq> []"
    by (simp add: trim_def isWhiteSpace_def)
  show ?thesis
    using h send_appends_two [OF h, of "\<lparr>uuid1 = [0x31], now1 = 5, uuid2 = [0x32], now2 = 6\<rparr>"]
    by (simp add: initial_def)
qed

section \<open>Lemmas about reachable worlds\<close>

lemma map_miss:
  "pid \<notin> set (map id_msg ms) \<Longrightarrow>
   map (\<lambda>msg. if id_msg msg = pid then msg\<lparr>text_msg := t\<rparr> else msg) ms = ms"
  by (induction ms) auto

lemma placeholder_index:
  assumes "wellformed w" "pid \<in> set (map placeholderId (inflight w))"
  shows "\<exists>i<length (messages w). id_msg (messages w ! i) = pid
           \<and> text_msg (messages w ! i) = [] \<and> \<not> isUser (messages w ! i)"
proof -
  from assms(2) obtain r where "r \<in> set (inflight w)" "placeholderId r = pid" by auto
  with assms(1) obtain m where "m \<in> set (messages w)" "id_msg m = pid" "text_msg m = []" "\<not> isUser m"
    by (auto simp: wellformed_def)
  then show ?thesis by (auto simp: in_set_conv_nth)
qed

lemma settle_at_index:
  assumes "wellformed w" "pid \<in> set (map placeholderId (inflight w))"
  shows "\<exists>i<length (messages w). id_msg (messages w ! i) = pid
           \<and> text_msg (messages w ! i) = [] \<and> \<not> isUser (messages w ! i)
           \<and> (\<forall>out. messages (settle pid out w) = (messages w)[i := (messages w ! i)\<lparr>text_msg := written out\<rparr>])"
proof -
  from placeholder_index [OF assms] obtain i where i: "i < length (messages w)"
      "id_msg (messages w ! i) = pid" "text_msg (messages w ! i) = []" "\<not> isUser (messages w ! i)"
    by blast
  from assms(1) have d: "distinct (map id_msg (messages w))" by (simp add: wellformed_def)
  have "messages (settle pid out w) = (messages w)[i := (messages w ! i)\<lparr>text_msg := written out\<rparr>]" for out
    by (simp add: settle_messages map_hit_update [OF d i(1,2)])
  with i show ?thesis by blast
qed

lemma reachable_wellformed: "feasible es initial \<Longrightarrow> wellformed (run es initial)"
  by (simp add: wellformed_run wellformed_initial)

lemmas unfold_run =
  initial_def handleSendMessage_def trim_def isWhiteSpace_def settle_def
  handleSendMessage_resume_def try_block_def catch_block_def finally_block_def
  handleInputFocus_def Let_def

section \<open>Settling\<close>

text \<open>
  C2. In every world the page can reach, when a request in flight ends with a response
  whose body reads as \<open>r\<close>, the resumed call puts \<open>r\<close> into the placeholder of that
  request, found by its id: the message at the placeholder's index gets text \<open>r\<close>, the
  list is otherwise the same, and the typing flag is cleared.
\<close>

theorem reply_fills_placeholder:
  assumes "feasible es initial" and "w = run es initial"
    and "pid \<in> set (map placeholderId (inflight w))"
  shows "\<exists>i<length (messages w). id_msg (messages w ! i) = pid
           \<and> text_msg (messages w ! i) = [] \<and> \<not> isUser (messages w ! i)
           \<and> messages (step (Settle pid (FetchResolves \<lparr>status = st, body = TextResolves r\<rparr>)) w)
               = (messages w)[i := (messages w ! i)\<lparr>text_msg := r\<rparr>]
           \<and> \<not> isTyping (step (Settle pid (FetchResolves \<lparr>status = st, body = TextResolves r\<rparr>)) w)"
proof -
  from assms have "wellformed w" by (simp add: reachable_wellformed)
  from settle_at_index [OF this assms(3)] show ?thesis
    by (auto simp: settle_fields written_def)
qed

theorem reply_fills_placeholder_witness:
  "feasible [Change [0x68, 0x69], Send \<lparr>uuid1 = [0x31], now1 = 5, uuid2 = [0x32], now2 = 6\<rparr>] initial
   \<and> [0x32] \<in> set (map placeholderId (inflight
        (run [Change [0x68, 0x69], Send \<lparr>uuid1 = [0x31], now1 = 5, uuid2 = [0x32], now2 = 6\<rparr>] initial)))
   \<and> messages (step (Settle [0x32] (FetchResolves \<lparr>status = 200, body = TextResolves [0x79, 0x6F]\<rparr>))
        (run [Change [0x68, 0x69], Send \<lparr>uuid1 = [0x31], now1 = 5, uuid2 = [0x32], now2 = 6\<rparr>] initial))
      = [\<lparr>id_msg = [0x31], text_msg = [0x68, 0x69], isUser = True, timestamp = 5\<rparr>,
         \<lparr>id_msg = [0x32], text_msg = [0x79, 0x6F], isUser = False, timestamp = 6\<rparr>]
   \<and> \<not> isTyping (step (Settle [0x32] (FetchResolves \<lparr>status = 200, body = TextResolves [0x79, 0x6F]\<rparr>))
        (run [Change [0x68, 0x69], Send \<lparr>uuid1 = [0x31], now1 = 5, uuid2 = [0x32], now2 = 6\<rparr>] initial))"
  using reply_fills_placeholder [of "[Change [0x68, 0x69], Send \<lparr>uuid1 = [0x31], now1 = 5, uuid2 = [0x32], now2 = 6\<rparr>]"
      _ "[0x32]" 200 "[0x79, 0x6F]", OF _ refl]
  by (simp add: unfold_run)

text \<open>
  C3. In every world the page can reach, when a request in flight ends, with whatever
  outcome, exactly one message has the id reserved for it, and the update of the list
  rewrites the text of that message and nothing else: the list keeps its length, every
  other position holds the message it held, the message itself keeps its id, its side
  and its timestamp, and the ids stay in the same order. The input field and the two
  view flags are not touched. Other requests may be in flight at the time.
\<close>

theorem settle_changes_one_text:
  assumes "feasible es initial" and "w = run es initial"
    and "pid \<in> set (map placeholderId (inflight w))"
  shows "\<exists>i<length (messages w).
           (\<forall>j<length (messages w). (id_msg (messages w ! j) = pid) = (j = i))
         \<and> messages (step (Settle pid out) w) = (messages w)[i := (messages w ! i)\<lparr>text_msg := written out\<rparr>]
         \<and> length (messages (step (Settle pid out) w)) = length (messages w)
         \<and> (\<forall>j<length (messages w). j \<noteq> i \<longrightarrow> messages (step (Settle pid out) w) ! j = messages w ! j)
         \<and> id_msg (messages (step (Settle pid out) w) ! i) = id_msg (messages w ! i)
         \<and> isUser (messages (step (Settle pid out) w) ! i) = isUser (messages w ! i)
         \<and> timestamp (messages (step (Settle pid out) w) ! i) = timestamp (messages w ! i)
         \<and> map id_msg (messages (step (Settle pid out) w)) = map id_msg (messages w)
         \<and> inputValue (step (Settle pid out) w) = inputValue w
         \<and> showChat (step (Settle pid out) w) = showChat w
         \<and> logoVisible (step (Settle pid out) w) = logoVisible w"
proof -
  from assms have wf: "wellformed w" by (simp add: reachable_wellformed)
  from settle_at_index [OF wf assms(3)] obtain i where i: "i < length (messages w)"
      "id_msg (messages w ! i) = pid"
      and upd: "messages (settle pid out w) = (messages w)[i := (messages w ! i)\<lparr>text_msg := written out\<rparr>]"
    by blast
  from wf have d: "distinct (map id_msg (messages w))" by (simp add: wellformed_def)
  have one: "(id_msg (messages w ! j) = pid) = (j = i)" if "j < length (messages w)" for j
    using nth_eq_iff_index_eq [OF d, of j i] that i by auto
  have ids: "map id_msg (messages (settle pid out w)) = map id_msg (messages w)"
    by (simp add: settle_messages o_def if_distrib cong: if_cong)
  from i one upd ids show ?thesis
    by (intro exI [of _ i]) (simp add: settle_fields)
qed

theorem settle_changes_one_text_witness:
  "feasible [Change [0x61], Send \<lparr>uuid1 = [0x31], now1 = 5, uuid2 = [0x32], now2 = 6\<rparr>,
             Change [0x62], Send \<lparr>uuid1 = [0x33], now1 = 7, uuid2 = [0x34], now2 = 8\<rparr>] initial
   \<and> [0x34] \<in> set (map placeholderId (inflight
        (run [Change [0x61], Send \<lparr>uuid1 = [0x31], now1 = 5, uuid2 = [0x32], now2 = 6\<rparr>,
              Change [0x62], Send \<lparr>uuid1 = [0x33], now1 = 7, uuid2 = [0x34], now2 = 8\<rparr>] initial)))
   \<and> messages (step (Settle [0x34] (FetchRejects (Exn [0x65])))
        (run [Change [0x61], Send \<lparr>uuid1 = [0x31], now1 = 5, uuid2 = [0x32], now2 = 6\<rparr>,
              Change [0x62], Send \<lparr>uuid1 = [0x33], now1 = 7, uuid2 = [0x34], now2 = 8\<rparr>] initial))
      = [\<lparr>id_msg = [0x31], text_msg = [0x61], isUser = True, timestamp = 5\<rparr>,
         \<lparr>id_msg = [0x32], text_msg = [], isUser = False, timestamp = 6\<rparr>,
         \<lparr>id_msg = [0x33], text_msg = [0x62], isUser = True, timestamp = 7\<rparr>,
         \<lparr>id_msg = [0x34], text_msg = fallback, isUser = False, timestamp = 8\<rparr>]"
  using settle_changes_one_text [of "[Change [0x61], Send \<lparr>uuid1 = [0x31], now1 = 5, uuid2 = [0x32], now2 = 6\<rparr>,
             Change [0x62], Send \<lparr>uuid1 = [0x33], now1 = 7, uuid2 = [0x34], now2 = 8\<rparr>]"
      _ "[0x34]" "FetchRejects (Exn [0x65])", OF _ refl]
  by (simp add: unfold_run)

text \<open>
  C4. In every world the page can reach, when a request in flight fails, because
  \<open>fetch\<close> rejects or because reading the body throws, the resumed call puts the one
  fallback sentence into the placeholder of that request, whatever was thrown, and
  clears the typing flag. The call's promise is fulfilled, not rejected, from any world.
  No request is sent again: the list of requests sent is the same, and the request is
  no longer in flight.
\<close>

theorem failure_writes_fallback:
  assumes "feasible es initial" and "w = run es initial"
    and "pid \<in> set (map placeholderId (inflight w))"
    and "out = FetchRejects err \<or> out = FetchResolves \<lparr>status = st, body = TextRejects err\<rparr>"
  shows "\<exists>i<length (messages w). id_msg (messages w ! i) = pid
         \<and> messages (step (Settle pid out) w) = (messages w)[i := (messages w ! i)\<lparr>text_msg := fallback\<rparr>]
         \<and> \<not> isTyping (step (Settle pid out) w)
         \<and> snd (handleSendMessage_resume pid out w0) = Fulfilled
         \<and> fetched (step (Settle pid out) w) = fetched w
         \<and> pid \<notin> set (map placeholderId (inflight (step (Settle pid out) w)))
         \<and> set (inflight (step (Settle pid out) w)) \<subseteq> set (inflight w)
         \<and> fallback \<noteq> []"
proof -
  from assms have wf: "wellformed w" by (simp add: reachable_wellformed)
  from assms(4) have wr: "written out = fallback" by (auto simp: written_def)
  from assms(4) have ful: "snd (handleSendMessage_resume pid out w0) = Fulfilled"
    by (auto simp: handleSendMessage_resume_def try_block_def)
  have nonempty: "fallback \<noteq> []" by (simp add: fallback_def)
  from settle_at_index [OF wf assms(3)] wr ful nonempty show ?thesis
    by (auto simp: settle_fields)
qed

theorem failure_writes_fallback_witness:
  "feasible [Change [0x78], Send \<lparr>uuid1 = [0x31], now1 = 5, uuid2 = [0x32], now2 = 6\<rparr>] initial
   \<and> [0x32] \<in> set (map placeholderId (inflight
        (run [Change [0x78], Send \<lparr>uuid1 = [0x31], now1 = 5, uuid2 = [0x32], now2 = 6\<rparr>] initial)))
   \<and> messages (step (Settle [0x32] (FetchRejects (Exn [0x65])))
        (run [Change [0x78], Send \<lparr>uuid1 = [0x31], now1 = 5, uuid2 = [0x32], now2 = 6\<rparr>] initial))
      = [\<lparr>id_msg = [0x31], text_msg = [0x78], isUser = True, timestamp = 5\<rparr>,
         \<lparr>id_msg = [0x32], text_msg = fallback, isUser = False, timestamp = 6\<rparr>]
   \<and> \<not> isTyping (step (Settle [0x32] (FetchRejects (Exn [0x65])))
        (run [Change [0x78], Send \<lparr>uuid1 = [0x31], now1 = 5, uuid2 = [0x32], now2 = 6\<rparr>] initial))
   \<and> snd (handleSendMessage_resume [0x32] (FetchRejects (Exn [0x65])) initial) = Fulfilled"
  using failure_writes_fallback [of "[Change [0x78], Send \<lparr>uuid1 = [0x31], now1 = 5, uuid2 = [0x32], now2 = 6\<rparr>]"
      _ "[0x32]" "FetchRejects (Exn [0x65])" "Exn [0x65]" 0 initial, OF _ refl]
  by (simp add: unfold_run)

section \<open>Which outcomes count as failures\<close>

text \<open>
  C10. Whenever the response's body can be read, the resumed call writes the body into
  the placeholder as it is, whatever the HTTP status, and the \<open>catch\<close> block does not
  run. The fallback sentence is written, and \<open>console.error\<close> called, exactly when
  \<open>fetch\<close> or \<open>response.text()\<close> throws.
\<close>

theorem body_shown_whatever_status:
  "handleSendMessage_resume pid (FetchResolves \<lparr>status = st, body = TextResolves txt\<rparr>) w =
     (w\<lparr>messages := map (\<lambda>msg. if id_msg msg = pid then msg\<lparr>text_msg := txt\<rparr> else msg) (messages w),
        isTyping := False\<rparr>, Fulfilled)
   \<and> handleSendMessage_resume pid (FetchRejects err) w =
     (w\<lparr>console := console w @ [err],
        messages := map (\<lambda>msg. if id_msg msg = pid then msg\<lparr>text_msg := fallback\<rparr> else msg) (messages w),
        isTyping := False\<rparr>, Fulfilled)
   \<and> handleSendMessage_resume pid (FetchResolves \<lparr>status = st, body = TextRejects err\<rparr>) w =
     (w\<lparr>console := console w @ [err],
        messages := map (\<lambda>msg. if id_msg msg = pid then msg\<lparr>text_msg := fallback\<rparr> else msg) (messages w),
        isTyping := False\<rparr>, Fulfilled)
   \<and> (console (fst (handleSendMessage_resume pid out w)) \<noteq> console w) =
       ((\<exists>e. out = FetchRejects e) \<or> (\<exists>resp e. out = FetchResolves resp \<and> body resp = TextRejects e))"
  by (cases out)
     (auto simp: handleSendMessage_resume_def try_block_def catch_block_def finally_block_def
        Let_def split: text_outcome.splits)

theorem body_shown_whatever_status_witness:
  "text_msg (messages (fst (handleSendMessage_resume [0x32]
       (FetchResolves \<lparr>status = 404, body = TextResolves [0x4E, 0x6F]\<rparr>)
       (initial\<lparr>messages := [\<lparr>id_msg = [0x32], text_msg = [], isUser = False, timestamp = 6\<rparr>]\<rparr>))) ! 0)
     = [0x4E, 0x6F]
   \<and> console (fst (handleSendMessage_resume [0x32]
       (FetchResolves \<lparr>status = 404, body = TextResolves [0x4E, 0x6F]\<rparr>)
       (initial\<lparr>messages := [\<lparr>id_msg = [0x32], text_msg = [], isUser = False, timestamp = 6\<rparr>]\<rparr>))) = []"
  using body_shown_whatever_status [of "[0x32]" 404 "[0x4E, 0x6F]"
      "initial\<lparr>messages := [\<lparr>id_msg = [0x32], text_msg = [], isUser = False, timestamp = 6\<rparr>]\<rparr>"
      "Exn []" "FetchResolves \<lparr>status = 404, body = TextResolves [0x4E, 0x6F]\<rparr>"]
  by (simp add: initial_def)

text \<open>
  C6. As specified, a response with an error status would leave the fallback sentence
  in the placeholder. It does not: after a send of \<open>x\<close>, a response with status 500 and
  body \<open>E\<close> leaves \<open>E\<close> there.
\<close>

theorem error_status_counterexample:
  "feasible [Change [0x78], Send \<lparr>uuid1 = [0x31], now1 = 5, uuid2 = [0x32], now2 = 6\<rparr>,
             Settle [0x32] (FetchResolves \<lparr>status = 500, body = TextResolves [0x45]\<rparr>)] initial
   \<and> messages (run [Change [0x78], Send \<lparr>uuid1 = [0x31], now1 = 5, uuid2 = [0x32], now2 = 6\<rparr>,
             Settle [0x32] (FetchResolves \<lparr>status = 500, body = TextResolves [0x45]\<rparr>)] initial)
      = [\<lparr>id_msg = [0x31], text_msg = [0x78], isUser = True, timestamp = 5\<rparr>,
         \<lparr>id_msg = [0x32], text_msg = [0x45], isUser = False, timestamp = 6\<rparr>]
   \<and> [0x45] \<noteq> fallback"
  by (simp add: unfold_run fallback_def)

text \<open>
  C6, as amended. In every world the page can reach, every outcome in which something
  is thrown, by \<open>fetch\<close> or by the reading of the body, leaves the same fallback sentence
  in the placeholder of the request, whatever was thrown and whatever the status. A
  response whose body can be read is not a failure, whatever its status: its body is
  what the placeholder gets.
\<close>

theorem thrown_outcomes_collapse:
  assumes "feasible es initial" and "w = run es initial"
    and "pid \<in> set (map placeholderId (inflight w))"
  shows "\<exists>i<length (messages w). id_msg (messages w ! i) = pid
         \<and> (\<forall>err. text_msg (messages (step (Settle pid (FetchRejects err)) w) ! i) = fallback)
         \<and> (\<forall>st err. text_msg (messages (step (Settle pid
                (FetchResolves \<lparr>status = st, body = TextRejects err\<rparr>)) w) ! i) = fallback)
         \<and> (\<forall>st txt. text_msg (messages (step (Settle pid
                (FetchResolves \<lparr>status = st, body = TextResolves txt\<rparr>)) w) ! i) = txt)"
proof -
  from assms have wf: "wellformed w" by (simp add: reachable_wellformed)
  from settle_at_index [OF wf assms(3)] show ?thesis
    by (auto simp: written_def)
qed

theorem thrown_outcomes_collapse_witness:
  "feasible [Change [0x78], Send \<lparr>uuid1 = [0x31], now1 = 5, uuid2 = [0x32], now2 = 6\<rparr>] initial
   \<and> [0x32] \<in> set (map placeholderId (inflight
        (run [Change [0x78], Send \<lparr>uuid1 = [0x31], now1 = 5, uuid2 = [0x32], now2 = 6\<rparr>] initial)))
   \<and> text_msg (messages (step (Settle [0x32] (FetchRejects (Exn [0x65])))
        (run [Change [0x78], Send \<lparr>uuid1 = [0x31], now1 = 5, uuid2 = [0x32], now2 = 6\<rparr>] initial)) ! 1)
      = fallback
   \<and> text_msg (messages (step (Settle [0x32] (FetchResolves \<lparr>status = 200, body = TextRejects (Exn [0x66])\<rparr>))
        (run [Change [0x78], Send \<lparr>uuid1 = [0x31], now1 = 5, uuid2 = [0x32], now2 = 6\<rparr>] initial)) ! 1)
      = fallback
   \<and> text_msg (messages (step (Settle [0x32] (FetchResolves \<lparr>status = 503, body = TextResolves [0x45]\<rparr>))
        (run [Change [0x78], Send \<lparr>uuid1 = [0x31], now1 = 5, uuid2 = [0x32], now2 = 6\<rparr>] initial)) ! 1)
      = [0x45]"
  using thrown_outcomes_collapse [of "[Change [0x78], Send \<lparr>uuid1 = [0x31], now1 = 5, uuid2 = [0x32], now2 = 6\<rparr>]"
      _ "[0x32]", OF _ refl]
  by (simp add: unfold_run)

section \<open>Two requests in flight\<close>

text \<open>
  C7. Two messages \<open>a\<close> then \<open>b\<close> are sent, both requests are in flight, and the request
  for \<open>b\<close> ends before the request for \<open>a\<close>. The list then is what it was before, followed
  by the user's \<open>a\<close>, the assistant's message with what the request for \<open>a\<close> wrote, the
  user's \<open>b\<close>, and the assistant's message with what the request for \<open>b\<close> wrote.
\<close>

theorem positions_fixed_at_insertion:
  assumes "trim a \<noteq> []" and "trim b \<noteq> []"
    and "feasible [Change a, Send da, Change b, Send db,
                   Settle (uuid2 db) outb, Settle (uuid2 da) outa] w"
  shows "messages (run [Change a, Send da, Change b, Send db,
                        Settle (uuid2 db) outb, Settle (uuid2 da) outa] w)
         = messages w @
           [\<lparr>id_msg = uuid1 da, text_msg = a, isUser = True, timestamp = now1 da\<rparr>,
            \<lparr>id_msg = uuid2 da, text_msg = written outa, isUser = False, timestamp = now2 da\<rparr>,
            \<lparr>id_msg = uuid1 db, text_msg = b, isUser = True, timestamp = now1 db\<rparr>,
            \<lparr>id_msg = uuid2 db, text_msg = written outb, isUser = False, timestamp = now2 db\<rparr>]"
proof -
  let ?w1 = "handleSendMessage da (w\<lparr>inputValue := a\<rparr>)"
  let ?w2 = "handleSendMessage db (?w1\<lparr>inputValue := b\<rparr>)"
  have m1: "messages ?w1 = messages w @
      [\<lparr>id_msg = uuid1 da, text_msg = a, isUser = True, timestamp = now1 da\<rparr>,
       \<lparr>id_msg = uuid2 da, text_msg = [], isUser = False, timestamp = now2 da\<rparr>]"
    using assms(1) by (simp add: send_messages)
  have m2: "messages ?w2 = messages ?w1 @
      [\<lparr>id_msg = uuid1 db, text_msg = b, isUser = True, timestamp = now1 db\<rparr>,
       \<lparr>id_msg = uuid2 db, text_msg = [], isUser = False, timestamp = now2 db\<rparr>]"
    using assms(2) by (simp add: send_messages)
  from assms(3) have fa: "uuid1 da \<noteq> uuid2 da" "uuid2 da \<notin> set (map id_msg (messages w))"
    by simp_all
  from assms(3) have "possible (Send db) (?w1\<lparr>inputValue := b\<rparr>)" by simp
  then have fb: "uuid1 db \<noteq> uuid2 db" "uuid2 db \<notin> set (map id_msg (messages w))"
      "uuid2 db \<noteq> uuid1 da" "uuid2 db \<noteq> uuid2 da" "uuid1 db \<noteq> uuid2 da"
    by (auto simp: m1)
  have "messages (settle (uuid2 da) outa (settle (uuid2 db) outb ?w2)) = messages w @
           [\<lparr>id_msg = uuid1 da, text_msg = a, isUser = True, timestamp = now1 da\<rparr>,
            \<lparr>id_msg = uuid2 da, text_msg = written outa, isUser = False, timestamp = now2 da\<rparr>,
            \<lparr>id_msg = uuid1 db, text_msg = b, isUser = True, timestamp = now1 db\<rparr>,
            \<lparr>id_msg = uuid2 db, text_msg = written outb, isUser = False, timestamp = now2 db\<rparr>]"
    using fa fb by (simp add: settle_messages m2 m1 map_miss)
  then show ?thesis by simp
qed

theorem positions_fixed_at_insertion_witness:
  "trim [0x61] \<noteq> [] \<and> trim [0x62] \<noteq> []
   \<and> feasible [Change [0x61], Send \<lparr>uuid1 = [0x31], now1 = 5, uuid2 = [0x32], now2 = 6\<rparr>,
               Change [0x62], Send \<lparr>uuid1 = [0x33], now1 = 7, uuid2 = [0x34], now2 = 8\<rparr>,
               Settle [0x34] (FetchResolves \<lparr>status = 200, body = TextResolves [0x42]\<rparr>),
               Settle [0x32] (FetchResolves \<lparr>status = 200, body = TextResolves [0x41]\<rparr>)] initial
   \<and> messages (run [Change [0x61], Send \<lparr>uuid1 = [0x31], now1 = 5, uuid2 = [0x32], now2 = 6\<rparr>,
               Change [0x62], Send \<lparr>uuid1 = [0x33], now1 = 7, uuid2 = [0x34], now2 = 8\<rparr>,
               Settle [0x34] (FetchResolves \<lparr>status = 200, body = TextResolves [0x42]\<rparr>),
               Settle [0x32] (FetchResolves \<lparr>status = 200, body = TextResolves [0x41]\<rparr>)] initial)
      = [\<lparr>id_msg = [0x31], text_msg = [0x61], isUser = True, timestamp = 5\<rparr>,
         \<lparr>id_msg = [0x32], text_msg = [0x41], isUser = False, timestamp = 6\<rparr>,
         \<lparr>id_msg = [0x33], text_msg = [0x62], isUser = True, timestamp = 7\<rparr>,
         \<lparr>id_msg = [0x34], text_msg = [0x42], isUser = False, timestamp = 8\<rparr>]"
proof -
  have ha: "trim [0x61] \<noteq> []" and hb: "trim [0x62] \<noteq> []"
    by (simp_all add: trim_def isWhiteSpace_def)
  have hf: "feasible [Change [0x61], Send \<lparr>uuid1 = [0x31], now1 = 5, uuid2 = [0x32], now2 = 6\<rparr>,
               Change [0x62], Send \<lparr>uuid1 = [0x33], now1 = 7, uuid2 = [0x34], now2 = 8\<rparr>,
               Settle (uuid2 \<lparr>uuid1 = [0x33], now1 = 7, uuid2 = [0x34], now2 = 8\<rparr>)
                 (FetchResolves \<lparr>status = 200, body = TextResolves [0x42]\<rparr>),
               Settle (uuid2 \<lparr>uuid1 = [0x31], now1 = 5, uuid2 = [0x32], now2 = 6\<rparr>)
                 (FetchResolves \<lparr>status = 200, body = TextResolves [0x41]\<rparr>)] initial"
    by (simp add: unfold_run)
  from positions_fixed_at_insertion [OF ha hb hf] ha hb hf show ?thesis
    by (simp add: written_def initial_def)
qed

text \<open>
  C9. As specified, the typing flag would be set as long as any request is in flight.
  It is not: with \<open>a\<close> and \<open>b\<close> sent and the request for \<open>b\<close> ended, the request
  for \<open>a\<close> is still in flight and the flag is cleared.
\<close>

theorem typing_flag_counterexample:
  "feasible [Change [0x61], Send \<lparr>uuid1 = [0x31], now1 = 5, uuid2 = [0x32], now2 = 6\<rparr>,
             Change [0x62], Send \<lparr>uuid1 = [0x33], now1 = 7, uuid2 = [0x34], now2 = 8\<rparr>,
             Settle [0x34] (FetchResolves \<lparr>status = 200, body = TextResolves [0x42]\<rparr>)] initial
   \<and> inflight (run [Change [0x61], Send \<lparr>uuid1 = [0x31], now1 = 5, uuid2 = [0x32], now2 = 6\<rparr>,
             Change [0x62], Send \<lparr>uuid1 = [0x33], now1 = 7, uuid2 = [0x34], now2 = 8\<rparr>,
             Settle [0x34] (FetchResolves \<lparr>status = 200, body = TextResolves [0x42]\<rparr>)] initial)
       = [\<lparr>placeholderId = [0x32], posted = [0x61]\<rparr>]
   \<and> \<not> isTyping (run [Change [0x61], Send \<lparr>uuid1 = [0x31], now1 = 5, uuid2 = [0x32], now2 = 6\<rparr>,
             Change [0x62], Send \<lparr>uuid1 = [0x33], now1 = 7, uuid2 = [0x34], now2 = 8\<rparr>,
             Settle [0x34] (FetchResolves \<lparr>status = 200, body = TextResolves [0x42]\<rparr>)] initial)"
  by (simp add: unfold_run)

lemma typing_implies_inflight_step:
  "(isTyping w \<longrightarrow> inflight w \<noteq> []) \<Longrightarrow>
   isTyping (step e w) \<longrightarrow> inflight (step e w) \<noteq> []"
  by (cases e) (auto simp: settle_fields handleSendMessage_def handleInputFocus_def Let_def)

lemma typing_implies_inflight_run:
  "(isTyping w \<longrightarrow> inflight w \<noteq> []) \<Longrightarrow>
   isTyping (run es w) \<longrightarrow> inflight (run es w) \<noteq> []"
proof (induction es arbitrary: w)
  case Nil
  then show ?case by simp
next
  case (Cons e es)
  from Cons.IH [OF typing_implies_inflight_step [OF Cons.prems]] show ?case by simp
qed

lemma typing_step:
  "isTyping (step e w) =
     (case e of Send d \<Rightarrow> (if trim (inputValue w) = [] then isTyping w else True)
      | Settle pid out \<Rightarrow> False | _ \<Rightarrow> isTyping w)"
  by (cases e) (simp_all add: settle_fields handleSendMessage_def handleInputFocus_def Let_def)

lemma typing_run: "isTyping (run es w) = awaited es w (isTyping w)"
proof (induction es arbitrary: w)
  case Nil
  show ?case by simp
next
  case (Cons e es)
  have "isTyping (run (e # es) w) = awaited es (step e w) (isTyping (step e w))"
    by (simp add: Cons.IH)
  also have "\<dots> = awaited (e # es) w (isTyping w)"
    by (cases e) (simp_all add: typing_step del: step.simps)
  finally show ?case .
qed

text \<open>
  C9, as amended. After any sequence of events, whatever their interleaving, the typing
  flag is set exactly when a message has been accepted and no request has ended since
  the last message was accepted. So the flag stays set while requests overlap, until
  the first of them ends; and whenever the flag is set, a request is in flight.
\<close>

theorem typing_flag_since_last_send:
  "isTyping (run es initial) = awaited es initial False
   \<and> (isTyping (run es initial) \<longrightarrow> inflight (run es initial) \<noteq> [])"
proof -
  have "isTyping (run es initial) = awaited es initial False"
    by (simp add: typing_run initial_def)
  moreover have "isTyping (run es initial) \<longrightarrow> inflight (run es initial) \<noteq> []"
    by (rule typing_implies_inflight_run) (simp add: initial_def)
  ultimately show ?thesis by blast
qed

theorem typing_flag_since_last_send_witness:
  "feasible [Change [0x61], Send \<lparr>uuid1 = [0x31], now1 = 5, uuid2 = [0x32], now2 = 6\<rparr>,
             Send \<lparr>uuid1 = [0x35], now1 = 6, uuid2 = [0x36], now2 = 6\<rparr>,
             Change [0x62], Send \<lparr>uuid1 = [0x33], now1 = 7, uuid2 = [0x34], now2 = 8\<rparr>] initial
   \<and> awaited [Change [0x61], Send \<lparr>uuid1 = [0x31], now1 = 5, uuid2 = [0x32], now2 = 6\<rparr>,
             Send \<lparr>uuid1 = [0x35], now1 = 6, uuid2 = [0x36], now2 = 6\<rparr>,
             Change [0x62], Send \<lparr>uuid1 = [0x33], now1 = 7, uuid2 = [0x34], now2 = 8\<rparr>] initial False
   \<and> isTyping (run [Change [0x61], Send \<lparr>uuid1 = [0x31], now1 = 5, uuid2 = [0x32], now2 = 6\<rparr>,
             Send \<lparr>uuid1 = [0x35], now1 = 6, uuid2 = [0x36], now2 = 6\<rparr>,
             Change [0x62], Send \<lparr>uuid1 = [0x33], now1 = 7, uuid2 = [0x34], now2 = 8\<rparr>] initial)
   \<and> inflight (run [Change [0x61], Send \<lparr>uuid1 = [0x31], now1 = 5, uuid2 = [0x32], now2 = 6\<rparr>,
             Send \<lparr>uuid1 = [0x35], now1 = 6, uuid2 = [0x36], now2 = 6\<rparr>,
             Change [0x62], Send \<lparr>uuid1 = [0x33], now1 = 7, uuid2 = [0x34], now2 = 8\<rparr>] initial)
       = [\<lparr>placeholderId = [0x32], posted = [0x61]\<rparr>, \<lparr>placeholderId = [0x34], posted = [0x62]\<rparr>]
   \<and> \<not> awaited [Change [0x61], Send \<lparr>uuid1 = [0x31], now1 = 5, uuid2 = [0x32], now2 = 6\<rparr>,
             Change [0x62], Send \<lparr>uuid1 = [0x33], now1 = 7, uuid2 = [0x34], now2 = 8\<rparr>,
             Settle [0x34] (FetchResolves \<lparr>status = 200, body = TextResolves [0x42]\<rparr>)] initial False
   \<and> \<not> isTyping (run [Change [0x61], Send \<lparr>uuid1 = [0x31], now1 = 5, uuid2 = [0x32], now2 = 6\<rparr>,
             Change [0x62], Send \<lparr>uuid1 = [0x33], now1 = 7, uuid2 = [0x34], now2 = 8\<rparr>,
             Settle [0x34] (FetchResolves \<lparr>status = 200, body = TextResolves [0x42]\<rparr>)] initial)"
  using typing_flag_since_last_send [of "[Change [0x61], Send \<lparr>uuid1 = [0x31], now1 = 5, uuid2 = [0x32], now2 = 6\<rparr>,
             Send \<lparr>uuid1 = [0x35], now1 = 6, uuid2 = [0x36], now2 = 6\<rparr>,
             Change [0x62], Send \<lparr>uuid1 = [0x33], now1 = 7, uuid2 = [0x34], now2 = 8\<rparr>]"]
    typing_flag_since_last_send [of "[Change [0x61], Send \<lparr>uuid1 = [0x31], now1 = 5, uuid2 = [0x32], now2 = 6\<rparr>,
             Change [0x62], Send \<lparr>uuid1 = [0x33], now1 = 7, uuid2 = [0x34], now2 = 8\<rparr>,
             Settle [0x34] (FetchResolves \<lparr>status = 200, body = TextResolves [0x42]\<rparr>)]"]
  by (simp add: unfold_run)

section \<open>The typewriter\<close>

lemma tick_running:
  assumes "Suc (idx s) < length (fullText s)"
  shows "interval (tick s) = interval s" "idx (tick s) = Suc (idx s)"
    "fullText (tick s) = fullText s" "displayed (tick s) = take (Suc (idx s)) (fullText s)"
  using assms by (simp_all add: tick_def Let_def)

lemma tick_last:
  assumes "Suc (idx s) \<ge> length (fullText s)"
  shows "\<not> interval (tick s)" "idx (tick s) = Suc (idx s)"
    "fullText (tick s) = fullText s" "displayed (tick s) = take (Suc (idx s)) (fullText s)"
  using assms by (simp_all add: tick_def Let_def)

lemma frames_stopped: "\<not> interval s \<Longrightarrow> frames s = []"
  by (simp add: frames.simps)

lemma rest_stopped: "\<not> interval s \<Longrightarrow> rest s = s"
  by (simp add: rest.simps)

lemma frames_running:
  "interval s \<Longrightarrow> idx s < length (fullText s) \<Longrightarrow>
   frames s = map (\<lambda>k. take k (fullText s)) [Suc (idx s)..<Suc (length (fullText s))]"
proof (induction s rule: frames.induct)
  case (1 s)
  show ?case
  proof (cases "Suc (idx s) < length (fullText s)")
    case True
    with "1.prems" have "interval (tick s)" "idx (tick s) < length (fullText (tick s))"
      by (simp_all add: tick_running)
    with "1.IH" [OF "1.prems"(1)] have "frames (tick s) =
        map (\<lambda>k. take k (fullText s)) [Suc (Suc (idx s))..<Suc (length (fullText s))]"
      by (simp add: tick_running [OF True])
    moreover have "[Suc (idx s)..<Suc (length (fullText s))]
        = Suc (idx s) # [Suc (Suc (idx s))..<Suc (length (fullText s))]"
      using True by (simp add: upt_conv_Cons)
    ultimately show ?thesis
      using "1.prems"(1) by (simp add: frames.simps [of s] tick_running [OF True])
  next
    case False
    with "1.prems" have len: "length (fullText s) = Suc (idx s)" by simp
    then have "frames (tick s) = []" by (simp add: frames_stopped tick_last)
    moreover have "[Suc (idx s)..<Suc (length (fullText s))] = [Suc (idx s)]"
      using len by simp
    ultimately show ?thesis
      using "1.prems"(1) len by (simp add: frames.simps [of s] tick_last)
  qed
qed

lemma rest_running:
  "interval s \<Longrightarrow> idx s < length (fullText s) \<Longrightarrow>
   \<not> interval (rest s) \<and> displayed (rest s) = fullText s \<and> fullText (rest s) = fullText s
   \<and> idx (rest s) = length (fullText s)"
proof (induction s rule: rest.induct)
  case (1 s)
  show ?case
  proof (cases "Suc (idx s) < length (fullText s)")
    case True
    with "1.prems" have "interval (tick s)" "idx (tick s) < length (fullText (tick s))"
      by (simp_all add: tick_running)
    from "1.IH" [OF "1.prems"(1) this] show ?thesis
      using "1.prems"(1) by (simp add: rest.simps [of s] tick_running [OF True])
  next
    case False
    with "1.prems" have len: "length (fullText s) = Suc (idx s)" by simp
    then have "rest (tick s) = tick s" by (simp add: rest_stopped tick_last)
    with "1.prems"(1) len show ?thesis by (simp add: rest.simps [of s] tick_last)
  qed
qed

lemma effect_fields:
  "displayed (effect ft s) = []" "idx (effect ft s) = 0" "fullText (effect ft s) = ft"
  "interval (effect ft s) = (if ft = [] then interval s else True)"
  by (simp_all add: effect_def Let_def)

lemma prefix_lengths:
  "map length (map (\<lambda>k. take k ft) [0..<Suc (length ft)]) = [0..<Suc (length ft)]"
proof -
  have "map (\<lambda>k. length (take k ft)) [0..<Suc (length ft)] = map (\<lambda>k. k) [0..<Suc (length ft)]"
    by (rule map_cong) auto
  then show ?thesis by (simp add: o_def)
qed

lemma shown_all:
  assumes "\<not> interval s \<or> ft \<noteq> []"
  shows "displayed (effect ft s) # frames (effect ft s) = map (\<lambda>k. take k ft) [0..<Suc (length ft)]"
proof (cases "ft = []")
  case True
  with assms show ?thesis by (simp add: effect_fields frames_stopped)
next
  case False
  then have "frames (effect ft s) = map (\<lambda>k. take k ft) [Suc 0..<Suc (length ft)]"
    using frames_running [of "effect ft s"] by (simp add: effect_fields)
  moreover have "[0..<Suc (length ft)] = 0 # [Suc 0..<Suc (length ft)]"
    by (rule upt_conv_Cons) simp
  ultimately show ?thesis by (simp add: effect_fields del: upt_Suc)
qed


text \<open>
  C5. When the effect runs for a text of \<open>N\<close> code units, after the clean-up of the run
  before it, the strings displayed are the prefixes of the text of lengths 0, 1, ..., \<open>N\<close>,
  each once and in this order: \<open>N + 1\<close> strings, pairwise different. Then the interval is
  cleared, the whole text is displayed and nothing is displayed after it. A render with a
  text other than the one before runs the effect again, and the displayed string is empty
  whatever it was. For the empty text no interval is set and the interval's callback
  displays nothing: the displayed string stays empty.
\<close>

theorem typewriter_reveals_prefixes:
  "displayed (effect ft (cleanup s)) # frames (effect ft (cleanup s))
     = map (\<lambda>k. take k ft) [0..<Suc (length ft)]
   \<and> map length (displayed (effect ft (cleanup s)) # frames (effect ft (cleanup s)))
     = [0..<Suc (length ft)]
   \<and> length (displayed (effect ft (cleanup s)) # frames (effect ft (cleanup s))) = length ft + 1
   \<and> distinct (displayed (effect ft (cleanup s)) # frames (effect ft (cleanup s)))
   \<and> \<not> interval (rest (effect ft (cleanup s)))
   \<and> displayed (rest (effect ft (cleanup s))) = ft
   \<and> frames (rest (effect ft (cleanup s))) = []
   \<and> (ft \<noteq> fullText s \<longrightarrow> render ft s = effect ft (cleanup s) \<and> displayed (render ft s) = []
        \<and> idx (render ft s) = 0)
   \<and> \<not> interval (effect [] (cleanup s)) \<and> frames (effect [] (cleanup s)) = []
   \<and> displayed (effect [] (cleanup s)) = [] \<and> rest (effect [] (cleanup s)) = effect [] (cleanup s)"
proof -
  let ?s = "effect ft (cleanup s)"
  have all: "displayed ?s # frames ?s = map (\<lambda>k. take k ft) [0..<Suc (length ft)]"
    by (rule shown_all) (simp add: cleanup_def)
  have lens: "map length (displayed ?s # frames ?s) = [0..<Suc (length ft)]"
    unfolding all by (rule prefix_lengths)
  have "distinct (map length (displayed ?s # frames ?s))"
    unfolding lens by (rule distinct_upt)
  then have dist: "distinct (displayed ?s # frames ?s)"
    by (simp only: distinct_map)
  have len: "length (displayed ?s # frames ?s) = length ft + 1"
    unfolding all by simp
  have off: "\<not> interval (effect [] (cleanup s))"
    by (simp add: effect_fields cleanup_def)
  have fin: "\<not> interval (rest ?s) \<and> displayed (rest ?s) = ft"
  proof (cases "ft = []")
    case True
    with off show ?thesis by (simp add: rest_stopped effect_fields)
  next
    case False
    with rest_running [of ?s] show ?thesis by (simp add: effect_fields)
  qed
  then have after: "frames (rest ?s) = []" by (simp add: frames_stopped)
  from all lens len dist fin after off show ?thesis
    by (simp add: render_def effect_fields frames_stopped rest_stopped del: upt_Suc)
qed

theorem typewriter_reveals_prefixes_witness:
  "[0x68, 0x69] \<noteq> fullText (tick (effect [0x6F, 0x6C, 0x64] mounted))
   \<and> displayed (tick (effect [0x6F, 0x6C, 0x64] mounted)) = [0x6F]
   \<and> displayed (render [0x68, 0x69] (tick (effect [0x6F, 0x6C, 0x64] mounted))) = []
   \<and> displayed (effect [0x68, 0x69] (cleanup (tick (effect [0x6F, 0x6C, 0x64] mounted))))
        # frames (effect [0x68, 0x69] (cleanup (tick (effect [0x6F, 0x6C, 0x64] mounted))))
      = [[], [0x68], [0x68, 0x69]]
   \<and> displayed (rest (effect [0x68, 0x69] (cleanup (tick (effect [0x6F, 0x6C, 0x64] mounted)))))
      = [0x68, 0x69]"
  using typewriter_reveals_prefixes [of "[0x68, 0x69]" "tick (effect [0x6F, 0x6C, 0x64] mounted)"]
  by (simp add: tick_def effect_def mounted_def Let_def upt_conv_Cons del: upt_Suc)

end
